theory Spec2Isabelle
  imports Main "HOL-Library.Sublist" "HOL-Library.Word"
begin

section \<open>The route scanner \<^verbatim>\<open>backend/search_routes.py\<close>\<close>

text \<open>
  The script is a module body without functions: it reads \<^verbatim>\<open>server.js\<close> into a list of
  lines, then prints three sections, each a header followed by the lines that satisfy the
  section's condition. The model follows the statements of the script one by one, with the
  standard output threaded through as a value. The script imports \<^verbatim>\<open>re\<close> and never uses
  it: every test is a plain substring test.
\<close>

subsection \<open>Python strings\<close>

text \<open>
  A Python \<^verbatim>\<open>str\<close> is a sequence of Unicode code points, so a character is a natural
  number here and not an 8-bit \<^typ>\<open>char\<close>. \<open>lit\<close> turns an ASCII literal of the
  script into such a string.
\<close>

type_synonym pystr = "nat list"

definition lit :: "string \<Rightarrow> pystr" where
  "lit s = map of_char s"

text \<open>
  \<^verbatim>\<open>str.isspace\<close> on one character: the code points that \<^verbatim>\<open>str.strip()\<close> removes
  (CPython's \<^verbatim>\<open>_PyUnicode_IsWhitespace\<close>).
\<close>

definition isspace :: "nat \<Rightarrow> bool" where
  "isspace c \<longleftrightarrow>
     (0x09 \<le> c \<and> c \<le> 0x0D) \<or> (0x1C \<le> c \<and> c \<le> 0x20) \<or> c = 0x85 \<or> c = 0xA0 \<or>
     c = 0x1680 \<or> (0x2000 \<le> c \<and> c \<le> 0x200A) \<or> c = 0x2028 \<or> c = 0x2029 \<or>
     c = 0x202F \<or> c = 0x205F \<or> c = 0x3000"

definition lstrip :: "pystr \<Rightarrow> pystr" where
  "lstrip s = dropWhile isspace s"

definition rstrip :: "pystr \<Rightarrow> pystr" where
  "rstrip s = rev (dropWhile isspace (rev s))"

text \<open>\<^verbatim>\<open>line.strip()\<close>: leading and trailing whitespace removed.\<close>

definition strip :: "pystr \<Rightarrow> pystr" where
  "strip s = rstrip (lstrip s)"

text \<open>
  \<^verbatim>\<open>sub in s\<close> on strings: \<open>sub\<close> starts at some position of \<open>s\<close>. The search tries
  every position from the left.
\<close>

fun py_in :: "pystr \<Rightarrow> pystr \<Rightarrow> bool" where
  "py_in sub [] = (sub = [])"
| "py_in sub (c # cs) = (prefix sub (c # cs) \<or> py_in sub cs)"

text \<open>
  \<^verbatim>\<open>{i}\<close> in an f-string is \<^verbatim>\<open>str(i)\<close>: the decimal digits of the number. The line
  numbers come from \<^verbatim>\<open>enumerate(lines, 1)\<close>, so they are natural numbers.
\<close>

fun str_nat :: "nat \<Rightarrow> pystr" where
  "str_nat n = (if n < 10 then [48 + n] else str_nat (n div 10) @ [48 + n mod 10])"

declare str_nat.simps [simp del]

subsection \<open>Reading the file\<close>

text \<open>
  \<^verbatim>\<open>open('server.js', 'r')\<close> raises when the path does not exist or may not be read, and
  \<^verbatim>\<open>f.readlines()\<close> raises when the bytes do not decode. A file that can be read holds a
  text. The command line and the environment are part of the process's world; the script
  never looks at them.
\<close>

datatype error =
  FileNotFoundError | PermissionError | UnicodeDecodeError | UnicodeEncodeError | OSError

datatype file_entry = Unreadable | Undecodable | Text pystr

record world =
  files :: "string \<rightharpoonup> file_entry"
  argv :: "string list"
  environ :: "string \<rightharpoonup> string"

text \<open>
  Text mode reads with universal newlines: \<^verbatim>\<open>\r\n\<close> and a lone \<^verbatim>\<open>\r\<close> both arrive
  as \<^verbatim>\<open>\n\<close>. The flag says that the previous character was a \<^verbatim>\<open>\r\<close>.
\<close>

fun universal_newlines :: "bool \<Rightarrow> pystr \<Rightarrow> pystr" where
  "universal_newlines after_cr [] = []"
| "universal_newlines after_cr (c # cs) =
     (if c = 13 then 10 # universal_newlines True cs
      else if c = 10 \<and> after_cr then universal_newlines False cs
      else c # universal_newlines False cs)"

text \<open>The lines of a text, each with its \<^verbatim>\<open>\n\<close>; the last one may lack it.\<close>

fun split_keepends :: "pystr \<Rightarrow> pystr list" where
  "split_keepends [] = []"
| "split_keepends (c # cs) =
     (if c = 10 then [c] # split_keepends cs
      else (case split_keepends cs of [] \<Rightarrow> [[c]] | l # ls \<Rightarrow> (c # l) # ls))"

definition readlines :: "pystr \<Rightarrow> pystr list" where
  "readlines t = split_keepends (universal_newlines False t)"

text \<open>The \<^verbatim>\<open>with open(...) as f: lines = f.readlines()\<close> block.\<close>

definition open_readlines :: "world \<Rightarrow> string \<Rightarrow> error + pystr list" where
  "open_readlines w path =
     (case files w path of
        None \<Rightarrow> Inl FileNotFoundError
      | Some Unreadable \<Rightarrow> Inl PermissionError
      | Some Undecodable \<Rightarrow> Inl UnicodeDecodeError
      | Some (Text t) \<Rightarrow> Inr (readlines t))"

subsection \<open>Printing\<close>

text \<open>
  \<^verbatim>\<open>print(s)\<close> appends \<open>s\<close> and a newline to the standard output. Here the standard
  output is the text the script hands over, and handing over always succeeds; the
  encoding of that text into bytes and the device behind the stream, where a
  \<^verbatim>\<open>print\<close> can raise, are in the process model further down (\<open>print_stdout\<close>,
  \<open>run\<close>).
\<close>

definition print :: "pystr \<Rightarrow> pystr \<Rightarrow> pystr" where
  "print s out = out @ s @ [10]"

text \<open>The f-string \<^verbatim>\<open>f"Line {i}: {line.strip()}"\<close>.\<close>

definition line_report :: "nat \<Rightarrow> pystr \<Rightarrow> pystr" where
  "line_report i line = lit ''Line '' @ str_nat i @ lit '': '' @ strip line"

subsection \<open>The three passes\<close>

text \<open>The conditions of the three \<^verbatim>\<open>if\<close> statements.\<close>

definition cond1 :: "pystr \<Rightarrow> bool" where
  "cond1 line \<longleftrightarrow>
     py_in (lit ''require'') line \<and> (py_in (lit ''routes/'') line \<or> py_in (lit ''Routes'') line)"

definition cond2 :: "pystr \<Rightarrow> bool" where
  "cond2 line \<longleftrightarrow>
     py_in (lit ''app.use'') line \<and> (py_in (lit ''/api'') line \<or> py_in (lit ''Routes'') line)"

definition cond3 :: "pystr \<Rightarrow> bool" where
  "cond3 line \<longleftrightarrow>
     list_ex (\<lambda>route. py_in route line)
       [lit ''ai-chat'', lit ''document-analyzer'', lit ''geocoding'']"

text \<open>
  The three loops have one shape,
  \<^verbatim>\<open>for i, line in enumerate(lines, 1): if cond: print(f"Line {i}: {line.strip()}")\<close>,
  and differ in the condition only.
\<close>

fun report_loop :: "(pystr \<Rightarrow> bool) \<Rightarrow> (nat \<times> pystr) list \<Rightarrow> pystr \<Rightarrow> pystr" where
  "report_loop cond [] out = out"
| "report_loop cond ((i, line) # rest) out =
     report_loop cond rest (if cond line then print (line_report i line) out else out)"

definition header1 :: pystr where
  "header1 = lit ''=== Route imports (require statements) ===''"

definition header2 :: pystr where
  "header2 = lit ''=== Route mounting (app.use statements) ===''"

definition header3 :: pystr where
  "header3 = lit ''=== Specific route files mentioned ===''"

subsection \<open>The module body\<close>

text \<open>
  What a run leaves behind: the standard output, and the exception that ended the run if
  one did. An uncaught exception makes the interpreter exit with status 1.
\<close>

record outcome =
  stdout :: pystr
  raised :: "error option"


definition main :: "world \<Rightarrow> outcome" where
  "main w =
     (case open_readlines w ''server.js'' of
        Inl e \<Rightarrow> \<lparr>stdout = [], raised = Some e\<rparr>
      | Inr lines \<Rightarrow>
          (let out = print header1 [];
               out = report_loop cond1 (List.enumerate 1 lines) out;
               out = print (10 # header2) out;
               out = report_loop cond2 (List.enumerate 1 lines) out;
               out = print (10 # header3) out;
               out = report_loop cond3 (List.enumerate 1 lines) out
           in \<lparr>stdout = out, raised = None\<rparr>))"

subsection \<open>The process around the script: encodings and the device of stdout\<close>

text \<open>
  The script opens the file and prints without naming an encoding, so the interpreter
  chooses: \<^verbatim>\<open>open\<close> decodes with the locale's preferred encoding, and the standard output
  encodes with \<^verbatim>\<open>PYTHONIOENCODING\<close> when that variable is set and with the preferred
  encoding otherwise, both with strict error handling for the characters a decoded file
  can hold. Three encodings are modelled. A byte is an 8-bit word.
\<close>

type_synonym byte = "8 word"

datatype codec = ASCII | Latin1 | UTF8

text \<open>The bytes of one code point, or \<open>None\<close> where the encoder raises.\<close>

fun encode_char :: "codec \<Rightarrow> nat \<Rightarrow> nat list option" where
  "encode_char ASCII c = (if c < 0x80 then Some [c] else None)"
| "encode_char Latin1 c = (if c < 0x100 then Some [c] else None)"
| "encode_char UTF8 c =
     (if c < 0x80 then Some [c]
      else if c < 0x800 then Some [0xC0 + c div 0x40, 0x80 + c mod 0x40]
      else if 0xD800 \<le> c \<and> c < 0xE000 then None
      else if c < 0x10000 then
        Some [0xE0 + c div 0x1000, 0x80 + c div 0x40 mod 0x40, 0x80 + c mod 0x40]
      else if c < 0x110000 then
        Some [0xF0 + c div 0x40000, 0x80 + c div 0x1000 mod 0x40, 0x80 + c div 0x40 mod 0x40,
              0x80 + c mod 0x40]
      else None)"

fun encode :: "codec \<Rightarrow> pystr \<Rightarrow> byte list option" where
  "encode enc [] = Some []"
| "encode enc (c # cs) =
     (case encode_char enc c of
        None \<Rightarrow> None
      | Some bs \<Rightarrow>
          (case encode enc cs of None \<Rightarrow> None | Some rest \<Rightarrow> Some (map of_nat bs @ rest)))"

text \<open>
  Strict UTF-8 decoding: the first code point of a byte sequence with the bytes after it.
  Overlong forms, surrogates, values above \<^verbatim>\<open>0x10FFFF\<close>, stray continuation bytes and
  truncated sequences are refused.
\<close>

definition continuation :: "nat \<Rightarrow> bool" where
  "continuation b \<longleftrightarrow> 0x80 \<le> b \<and> b < 0xC0"

definition utf8_first :: "nat list \<Rightarrow> (nat \<times> nat list) option" where
  "utf8_first bs =
     (case bs of
        [] \<Rightarrow> None
      | b # r \<Rightarrow>
          if b < 0x80 then Some (b, r)
          else if 0xC0 \<le> b \<and> b < 0xE0 then
            (case r of
               b1 # r1 \<Rightarrow>
                 (let c = (b - 0xC0) * 0x40 + (b1 - 0x80)
                  in if continuation b1 \<and> 0x80 \<le> c then Some (c, r1) else None)
             | _ \<Rightarrow> None)
          else if 0xE0 \<le> b \<and> b < 0xF0 then
            (case r of
               b1 # b2 # r2 \<Rightarrow>
                 (let c = (b - 0xE0) * 0x1000 + (b1 - 0x80) * 0x40 + (b2 - 0x80)
                  in if continuation b1 \<and> continuation b2 \<and> 0x800 \<le> c \<and>
                        \<not> (0xD800 \<le> c \<and> c < 0xE000)
                     then Some (c, r2) else None)
             | _ \<Rightarrow> None)
          else if 0xF0 \<le> b \<and> b < 0xF8 then
            (case r of
               b1 # b2 # b3 # r3 \<Rightarrow>
                 (let c = (b - 0xF0) * 0x40000 + (b1 - 0x80) * 0x1000 + (b2 - 0x80) * 0x40 +
                          (b3 - 0x80)
                  in if continuation b1 \<and> continuation b2 \<and> continuation b3 \<and>
                        0x10000 \<le> c \<and> c < 0x110000
                     then Some (c, r3) else None)
             | _ \<Rightarrow> None)
          else None)"

function utf8_decode :: "nat list \<Rightarrow> pystr option" where
  "utf8_decode bs =
     (if bs = [] then Some []
      else (case utf8_first bs of
              None \<Rightarrow> None
            | Some (c, rest) \<Rightarrow> map_option ((#) c) (utf8_decode rest)))"
  by pat_completeness auto
termination
  by (relation "measure length")
    (auto simp: utf8_first_def Let_def split: list.splits if_splits)

declare utf8_decode.simps [simp del]

fun decode :: "codec \<Rightarrow> byte list \<Rightarrow> pystr option" where
  "decode ASCII bs = (if list_all (\<lambda>b. unat b < 0x80) bs then Some (map unat bs) else None)"
| "decode Latin1 bs = Some (map unat bs)"
| "decode UTF8 bs = utf8_decode (map unat bs)"

text \<open>
  The process: the files as bytes, the command line, the environment, and the standard
  output's device. Of the environment the interpreter has read the locale (the preferred
  encoding) and \<^verbatim>\<open>PYTHONIOENCODING\<close>; \<open>variables\<close> holds the rest. The device is known by
  what it does: \<open>io_write out bs\<close> says whether the stream, having taken \<open>out\<close>, takes the
  bytes \<open>bs\<close> (into its buffer or onto the device) without an \<^verbatim>\<open>OSError\<close>, and
  \<open>io_flush out\<close> whether the flush at exit succeeds.
\<close>

datatype disk_file = Denied | Bytes "byte list"

record process =
  disk :: "string \<rightharpoonup> disk_file"
  cmdline :: "string list"
  variables :: "string \<rightharpoonup> string"
  preferred_encoding :: codec
  pythonioencoding :: "codec option"
  io_write :: "byte list \<Rightarrow> byte list \<Rightarrow> bool"
  io_flush :: "byte list \<Rightarrow> bool"

definition stdout_encoding :: "process \<Rightarrow> codec" where
  "stdout_encoding p =
     (case pythonioencoding p of None \<Rightarrow> preferred_encoding p | Some enc \<Rightarrow> enc)"

text \<open>What the script sees of the process: every file decoded with the preferred encoding.\<close>

definition text_world :: "process \<Rightarrow> world" where
  "text_world p =
     \<lparr>files = (\<lambda>path.
        case disk p path of
          None \<Rightarrow> None
        | Some Denied \<Rightarrow> Some Unreadable
        | Some (Bytes bs) \<Rightarrow>
            (case decode (preferred_encoding p) bs of
               None \<Rightarrow> Some Undecodable
             | Some t \<Rightarrow> Some (Text t))),
      argv = cmdline p, environ = variables p\<rparr>"

text \<open>
  A statement either goes through, leaving the bytes written so far, or raises, leaving
  the exception and the bytes written before it. \<^verbatim>\<open>sys.stdout.write(s)\<close> encodes the whole
  string first, so a string with a character that cannot be encoded writes nothing.
\<close>

type_synonym progress = "(error \<times> byte list) + byte list"

definition write_stdout :: "process \<Rightarrow> pystr \<Rightarrow> byte list \<Rightarrow> progress" where
  "write_stdout p s out =
     (case encode (stdout_encoding p) s of
        None \<Rightarrow> Inl (UnicodeEncodeError, out)
      | Some bs \<Rightarrow> if io_write p out bs then Inr (out @ bs) else Inl (OSError, out))"

text \<open>\<^verbatim>\<open>print(s)\<close> writes \<open>s\<close>, then the newline.\<close>

definition print_stdout :: "process \<Rightarrow> pystr \<Rightarrow> byte list \<Rightarrow> progress" where
  "print_stdout p s out =
     (case write_stdout p s out of
        Inl failure \<Rightarrow> Inl failure
      | Inr out' \<Rightarrow> write_stdout p [10] out')"

fun report_loop_stdout ::
  "process \<Rightarrow> (pystr \<Rightarrow> bool) \<Rightarrow> (nat \<times> pystr) list \<Rightarrow> byte list \<Rightarrow> progress" where
  "report_loop_stdout p cond [] out = Inr out"
| "report_loop_stdout p cond ((i, line) # rest) out =
     (if cond line then
        (case print_stdout p (line_report i line) out of
           Inl failure \<Rightarrow> Inl failure
         | Inr out' \<Rightarrow> report_loop_stdout p cond rest out')
      else report_loop_stdout p cond rest out)"

text \<open>Statements in sequence: the first one that raises ends the run.\<close>

fun run_statements :: "(byte list \<Rightarrow> progress) list \<Rightarrow> byte list \<Rightarrow> progress" where
  "run_statements [] out = Inr out"
| "run_statements (s # ss) out =
     (case s out of Inl failure \<Rightarrow> Inl failure | Inr out' \<Rightarrow> run_statements ss out')"

text \<open>
  What a run of the process leaves behind. At exit the interpreter flushes the standard
  output; a failed flush makes the exit status 120, an uncaught exception otherwise 1.
  With nothing written there is nothing to flush.
\<close>

record result =
  written :: "byte list"
  uncaught :: "error option"
  flush_failed :: bool

definition exit_code :: "result \<Rightarrow> nat" where
  "exit_code r =
     (if flush_failed r then 120 else (case uncaught r of None \<Rightarrow> 0 | Some e \<Rightarrow> 1))"

definition finish :: "process \<Rightarrow> progress \<Rightarrow> result" where
  "finish p r =
     (case r of
        Inl (e, out) \<Rightarrow>
          \<lparr>written = out, uncaught = Some e, flush_failed = (out \<noteq> [] \<and> \<not> io_flush p out)\<rparr>
      | Inr out \<Rightarrow>
          \<lparr>written = out, uncaught = None, flush_failed = (out \<noteq> [] \<and> \<not> io_flush p out)\<rparr>)"

text \<open>
  The statements of the module body after the read, in the order of the script, run by
  the interpreter in a process.
\<close>

definition body :: "process \<Rightarrow> pystr list \<Rightarrow> progress" where
  "body p lines =
     run_statements
       [print_stdout p header1,
        report_loop_stdout p cond1 (List.enumerate 1 lines),
        print_stdout p (10 # header2),
        report_loop_stdout p cond2 (List.enumerate 1 lines),
        print_stdout p (10 # header3),
        report_loop_stdout p cond3 (List.enumerate 1 lines)]
       []"

definition run :: "process \<Rightarrow> result" where
  "run p =
     finish p
       (case open_readlines (text_world p) ''server.js'' of
          Inl e \<Rightarrow> Inl (e, [])
        | Inr lines \<Rightarrow> body p lines)"

subsection \<open>Reading the standard output back\<close>

text \<open>
  The claims speak of what is printed under a section, so the output is read the way a
  user reads it: cut into text lines at each newline, a section being the non-blank lines
  between its header and the next one.
\<close>

fun out_lines :: "pystr \<Rightarrow> pystr list" where
  "out_lines [] = []"
| "out_lines (c # cs) =
     (if c = 10 then [] # out_lines cs
      else (case out_lines cs of [] \<Rightarrow> [[c]] | l # ls \<Rightarrow> (c # l) # ls))"

definition after_header :: "pystr \<Rightarrow> pystr list \<Rightarrow> pystr list" where
  "after_header h ls = drop 1 (dropWhile (\<lambda>l. l \<noteq> h) ls)"

definition section1 :: "pystr \<Rightarrow> pystr list" where
  "section1 out =
     filter (\<lambda>l. l \<noteq> []) (takeWhile (\<lambda>l. l \<noteq> header2) (after_header header1 (out_lines out)))"

definition section2 :: "pystr \<Rightarrow> pystr list" where
  "section2 out =
     filter (\<lambda>l. l \<noteq> []) (takeWhile (\<lambda>l. l \<noteq> header3) (after_header header2 (out_lines out)))"

definition section3 :: "pystr \<Rightarrow> pystr list" where
  "section3 out = filter (\<lambda>l. l \<noteq> []) (after_header header3 (out_lines out))"

text \<open>A header line is one that starts with \<^verbatim>\<open>===\<close>.\<close>

definition is_header :: "pystr \<Rightarrow> bool" where
  "is_header l \<longleftrightarrow> prefix (lit ''==='') l"

text \<open>The number printed in a line of the form \<^verbatim>\<open>Line <n>: <text>\<close>.\<close>

definition is_digit :: "nat \<Rightarrow> bool" where
  "is_digit c \<longleftrightarrow> 48 \<le> c \<and> c \<le> 57"

definition parse_nat :: "pystr \<Rightarrow> nat" where
  "parse_nat ds = foldl (\<lambda>a d. 10 * a + (d - 48)) 0 ds"

definition line_no :: "pystr \<Rightarrow> nat" where
  "line_no l = parse_nat (takeWhile is_digit (drop 5 l))"

subsection \<open>What a run should print\<close>

text \<open>
  The report lines of one pass, as a list: the lines that satisfy the condition, in file
  order, each with its 1-based number. \<open>page\<close> is the whole output as text lines, and
  \<open>unlines\<close> writes text lines out with their newlines.
\<close>

definition reports :: "(pystr \<Rightarrow> bool) \<Rightarrow> pystr list \<Rightarrow> pystr list" where
  "reports cond lines =
     map (\<lambda>(i, line). line_report i line)
       (filter (\<lambda>(i, line). cond line) (List.enumerate 1 lines))"

definition unlines :: "pystr list \<Rightarrow> pystr" where
  "unlines ls = concat (map (\<lambda>l. l @ [10]) ls)"

definition page :: "pystr list \<Rightarrow> pystr list" where
  "page lines =
     header1 # reports cond1 lines @ [] # header2 # reports cond2 lines @
     [] # header3 # reports cond3 lines"

subsection \<open>Example inputs\<close>






text \<open>
  Processes: one whose \<^verbatim>\<open>server.js\<close> holds a line with the non-ASCII character
  \<^verbatim>\<open>U+00E9\<close>, read and printed in UTF-8 on a device that takes everything; the same
  process with \<^verbatim>\<open>PYTHONIOENCODING\<close> set to Latin-1 and to ASCII; the same process on a
  device whose final flush fails, as a full disk does; the same process without the file;
  and the same process with another command line, other variables and one more file.
\<close>

definition cafe_bytes :: "byte list" where
  "cafe_bytes =
     map of_char ''const menu = require('./routes/caf'' @ [0xC3, 0xA9] @
     map of_char ''-menu');'' @ [10]"

definition cafe_line :: pystr where
  "cafe_line = lit ''const menu = require('./routes/caf'' @ [0xE9] @ lit ''-menu');'' @ [10]"

definition utf8_process :: process where
  "utf8_process =
     \<lparr>disk = [''server.js'' \<mapsto> Bytes cafe_bytes], cmdline = [''search_routes.py''],
      variables = Map.empty, preferred_encoding = UTF8, pythonioencoding = None,
      io_write = (\<lambda>out bs. True), io_flush = (\<lambda>out. True)\<rparr>"

definition latin1_stdout_process :: process where
  "latin1_stdout_process = utf8_process\<lparr>pythonioencoding := Some Latin1\<rparr>"

definition ascii_stdout_process :: process where
  "ascii_stdout_process = utf8_process\<lparr>pythonioencoding := Some ASCII\<rparr>"

definition full_device_process :: process where
  "full_device_process = utf8_process\<lparr>io_flush := (\<lambda>out. False)\<rparr>"

definition missing_process :: process where
  "missing_process = utf8_process\<lparr>disk := Map.empty\<rparr>"


section \<open>Properties\<close>

subsection \<open>Substring search and stripping\<close>

text \<open>The search of \<open>py_in\<close> finds exactly the contiguous substrings.\<close>

lemma py_in_sublist: "py_in sub s = sublist sub s"
  by (induction s) (simp_all add: sublist_Cons_right)

text \<open>
  Dropping leading characters that do not occur in a non-empty needle loses no occurrence
  of the needle.
\<close>

lemma sublist_dropWhile_iff:
  assumes "sub \<noteq> []" and "\<forall>c\<in>set sub. \<not> P c"
  shows "sublist sub (dropWhile P s) = sublist sub s"
proof (induction s)
  case Nil
  show ?case by simp
next
  case (Cons c cs)
  show ?case
  proof (cases "P c")
    case False
    then show ?thesis by simp
  next
    case True
    obtain d ds where sub: "sub = d # ds"
      using assms(1) by (cases sub) auto
    with assms(2) have "\<not> P d" by simp
    with True have "d \<noteq> c" by auto
    then have "\<not> prefix sub (c # cs)" by (simp add: sub)
    with True Cons show ?thesis by (simp add: sublist_Cons_right)
  qed
qed

lemma sublist_strip:
  assumes "sub \<noteq> []" and "\<forall>c\<in>set sub. \<not> isspace c"
  shows "sublist sub (strip s) = sublist sub s"
proof -
  have r: "rev sub \<noteq> []" "\<forall>c\<in>set (rev sub). \<not> isspace c"
    using assms by simp_all
  have "sublist sub (strip s) = sublist (rev sub) (dropWhile isspace (rev (lstrip s)))"
    by (simp add: strip_def rstrip_def sublist_rev_right)
  also have "\<dots> = sublist (rev sub) (rev (lstrip s))"
    by (rule sublist_dropWhile_iff [OF r])
  also have "\<dots> = sublist sub (dropWhile isspace s)"
    by (simp add: lstrip_def)
  also have "\<dots> = sublist sub s"
    by (rule sublist_dropWhile_iff [OF assms])
  finally show ?thesis .
qed

lemma py_in_strip:
  "sub \<noteq> [] \<Longrightarrow> \<forall>c\<in>set sub. \<not> isspace c \<Longrightarrow> py_in sub (strip s) = py_in sub s"
  by (simp add: py_in_sublist sublist_strip)

lemma needle_strip:
  "py_in (lit ''require'') (strip s) = py_in (lit ''require'') s"
  "py_in (lit ''routes/'') (strip s) = py_in (lit ''routes/'') s"
  "py_in (lit ''Routes'') (strip s) = py_in (lit ''Routes'') s"
  "py_in (lit ''app.use'') (strip s) = py_in (lit ''app.use'') s"
  "py_in (lit ''/api'') (strip s) = py_in (lit ''/api'') s"
  "py_in (lit ''ai-chat'') (strip s) = py_in (lit ''ai-chat'') s"
  "py_in (lit ''document-analyzer'') (strip s) = py_in (lit ''document-analyzer'') s"
  "py_in (lit ''geocoding'') (strip s) = py_in (lit ''geocoding'') s"
  by (rule py_in_strip; simp add: lit_def isspace_def)+

lemma cond1_strip: "cond1 (strip line) = cond1 line"
  by (simp add: cond1_def needle_strip)

lemma cond2_strip: "cond2 (strip line) = cond2 line"
  by (simp add: cond2_def needle_strip)

lemma cond3_strip: "cond3 (strip line) = cond3 line"
  by (simp add: cond3_def needle_strip)

text \<open>
  Claim C10: on every line, each of the three conditions gives the same answer on the raw
  text as on the stripped text, and none of the eight search strings holds a whitespace
  character.
\<close>

theorem conditions_ignore_surrounding_whitespace:
  "cond1 (strip line) = cond1 line \<and> cond2 (strip line) = cond2 line \<and>
   cond3 (strip line) = cond3 line \<and>
   list_all (\<lambda>sub. list_all (\<lambda>c. \<not> isspace c) sub)
     [lit ''require'', lit ''routes/'', lit ''Routes'', lit ''app.use'', lit ''/api'',
      lit ''ai-chat'', lit ''document-analyzer'', lit ''geocoding'']"
proof -
  have "list_all (\<lambda>sub. list_all (\<lambda>c. \<not> isspace c) sub)
     [lit ''require'', lit ''routes/'', lit ''Routes'', lit ''app.use'', lit ''/api'',
      lit ''ai-chat'', lit ''document-analyzer'', lit ''geocoding'']"
    by (simp add: lit_def isspace_def)
  then show ?thesis
    by (simp only: cond1_strip cond2_strip cond3_strip simp_thms)
qed

subsection \<open>Line numbers and report lines\<close>

lemma str_nat_digits: "\<forall>c\<in>set (str_nat n). is_digit c"
proof (induction n rule: str_nat.induct)
  case (1 n)
  show ?case
  proof (cases "n < 10")
    case True
    then show ?thesis by (subst str_nat.simps) (simp add: is_digit_def)
  next
    case False
    have "n mod 10 < 10" by simp
    then have "is_digit (48 + n mod 10)" unfolding is_digit_def by linarith
    with False 1 show ?thesis by (subst str_nat.simps) simp
  qed
qed

lemma parse_nat_snoc: "parse_nat (ds @ [d]) = 10 * parse_nat ds + (d - 48)"
  by (simp add: parse_nat_def)

lemma parse_str_nat: "parse_nat (str_nat n) = n"
proof (induction n rule: str_nat.induct)
  case (1 n)
  show ?case
  proof (cases "n < 10")
    case True
    then show ?thesis by (subst str_nat.simps) (simp add: parse_nat_def)
  next
    case False
    with 1 have "parse_nat (str_nat (n div 10)) = n div 10" by simp
    with False show ?thesis by (subst str_nat.simps) (simp add: parse_nat_snoc)
  qed
qed

lemma takeWhile_digits:
  "\<forall>c\<in>set ds. is_digit c \<Longrightarrow> takeWhile is_digit (ds @ lit '': '' @ r) = ds"
  by (simp add: takeWhile_append2 lit_def is_digit_def)

lemma line_no_report: "line_no (line_report i line) = i"
proof -
  have "drop 5 (line_report i line) = str_nat i @ lit '': '' @ strip line"
    by (simp add: line_report_def lit_def)
  then have "takeWhile is_digit (drop 5 (line_report i line)) = str_nat i"
    using takeWhile_digits [OF str_nat_digits] by simp
  then show ?thesis
    by (simp add: line_no_def parse_str_nat)
qed

lemma line_report_not_header:
  "line_report i line \<noteq> header1" "line_report i line \<noteq> header2"
  "line_report i line \<noteq> header3" "line_report i line \<noteq> []" "\<not> is_header (line_report i line)"
  by (simp_all add: line_report_def header1_def header2_def header3_def lit_def is_header_def)

lemma headers_distinct:
  "header1 \<noteq> header2" "header2 \<noteq> header3" "header1 \<noteq> header3"
  "header1 \<noteq> []" "header2 \<noteq> []" "header3 \<noteq> []"
  by (simp_all add: header1_def header2_def header3_def lit_def)


lemma header_no_newline:
  "10 \<notin> set header1" "10 \<notin> set header2" "10 \<notin> set header3"
  by (simp_all add: header1_def header2_def header3_def lit_def)

subsection \<open>The standard output as text lines\<close>

lemma unlines_simps:
  "unlines [] = []" "unlines (l # ls) = l @ 10 # unlines ls"
  "unlines (ls @ ls') = unlines ls @ unlines ls'"
  by (simp_all add: unlines_def)

lemma report_loop_unlines:
  "report_loop cond es out =
     out @ unlines (map (\<lambda>(i, line). line_report i line) (filter (\<lambda>(i, line). cond line) es))"
  by (induction cond es out rule: report_loop.induct) (simp_all add: unlines_simps print_def)

lemma report_loop_reports:
  "report_loop cond (List.enumerate 1 lines) out = out @ unlines (reports cond lines)"
  by (simp add: report_loop_unlines reports_def)

lemma out_lines_line: "10 \<notin> set l \<Longrightarrow> out_lines (l @ 10 # rest) = l # out_lines rest"
  by (induction l) auto

lemma out_lines_unlines: "\<forall>l\<in>set ls. 10 \<notin> set l \<Longrightarrow> out_lines (unlines ls) = ls"
  by (induction ls) (simp_all add: unlines_simps out_lines_line)

lemma split_keepends_newline:
  "l \<in> set (split_keepends t) \<Longrightarrow> 10 \<notin> set (butlast l)"
proof (induction t arbitrary: l)
  case Nil
  then show ?case by simp
next
  case (Cons c cs)
  show ?case
  proof (cases "c = 10")
    case True
    with Cons show ?thesis by auto
  next
    case False
    show ?thesis
    proof (cases "split_keepends cs")
      case Nil
      with False Cons.prems show ?thesis by simp
    next
      case (Cons m ms)
      with False Cons.prems have "l = c # m \<or> l \<in> set ms" by simp
      then show ?thesis
      proof
        assume l: "l = c # m"
        have "10 \<notin> set (butlast m)" using Cons.IH [of m] Cons by simp
        with False l show ?thesis by auto
      next
        assume "l \<in> set ms"
        then show ?thesis using Cons.IH [of l] Cons by simp
      qed
    qed
  qed
qed

lemma rstrip_snoc_newline: "rstrip (s @ [10]) = rstrip s"
  by (simp add: rstrip_def isspace_def)

lemma set_rstrip: "set (rstrip s) \<subseteq> set s"
  unfolding rstrip_def using set_dropWhileD by fastforce

lemma strip_no_newline:
  assumes "10 \<notin> set (butlast l)"
  shows "10 \<notin> set (strip l)"
proof (cases "lstrip l = []")
  case True
  then show ?thesis by (simp add: strip_def rstrip_def)
next
  case False
  have suf: "suffix (lstrip l) l"
    by (simp add: lstrip_def suffix_dropWhile)
  from False have "l \<noteq> []" by (auto simp: lstrip_def)
  from False obtain b x where bx: "lstrip l = b @ [x]"
    by (metis rev_exhaust)
  with suf obtain p where "l = p @ b @ [x]"
    by (auto simp: suffix_def)
  then have "butlast l = p @ b" by (simp add: butlast_append)
  with assms have b: "10 \<notin> set b" by simp
  show ?thesis
  proof (cases "x = 10")
    case True
    then have "strip l = rstrip b" by (simp add: strip_def bx rstrip_snoc_newline)
    with b set_rstrip [of b] show ?thesis by auto
  next
    case False
    with b bx have "10 \<notin> set (lstrip l)" by simp
    then show ?thesis using set_rstrip [of "lstrip l"] by (auto simp: strip_def)
  qed
qed

lemma str_nat_no_newline: "10 \<notin> set (str_nat n)"
  using str_nat_digits [of n] by (auto simp: is_digit_def)

lemma line_report_no_newline:
  "10 \<notin> set (butlast line) \<Longrightarrow> 10 \<notin> set (line_report i line)"
  by (simp add: line_report_def str_nat_no_newline strip_no_newline lit_def)

lemma reports_no_newline:
  assumes "\<forall>l\<in>set lines. 10 \<notin> set (butlast l)"
  shows "\<forall>r\<in>set (reports cond lines). 10 \<notin> set r"
proof
  fix r assume "r \<in> set (reports cond lines)"
  then obtain i l where "(i, l) \<in> set (List.enumerate 1 lines)" and r: "r = line_report i l"
    by (auto simp: reports_def)
  then have "l \<in> set lines" by (auto simp: in_set_enumerate_eq)
  with assms r show "10 \<notin> set r" by (simp add: line_report_no_newline)
qed

subsection \<open>The sections of a run\<close>

lemma open_readlines_Text:
  "files w path = Some (Text t) \<Longrightarrow> open_readlines w path = Inr (readlines t)"
  by (simp add: open_readlines_def)

lemma readlines_newline: "\<forall>l\<in>set (readlines t). 10 \<notin> set (butlast l)"
  by (simp add: readlines_def split_keepends_newline)

lemma main_Text:
  assumes "files w ''server.js'' = Some (Text t)"
  shows "main w = \<lparr>stdout = unlines (page (readlines t)), raised = None\<rparr>"
  using assms
  by (simp add: main_def open_readlines_Text Let_def report_loop_reports print_def
      page_def unlines_simps del: One_nat_def)

lemma page_no_newline: "\<forall>l\<in>set (page (readlines t)). 10 \<notin> set l"
  using reports_no_newline [OF readlines_newline]
  by (auto simp: page_def header_no_newline)


lemma reports_shape:
  assumes "r \<in> set (reports cond lines)"
  shows "r \<noteq> header1" "r \<noteq> header2" "r \<noteq> header3" "r \<noteq> []" "\<not> is_header r"
  using assms by (auto simp: reports_def line_report_not_header)

lemma after_header_skip:
  "\<forall>l\<in>set pre. l \<noteq> h \<Longrightarrow> after_header h (pre @ h # rest) = rest"
  by (simp add: after_header_def dropWhile_append2)

lemma section_until:
  assumes "\<forall>l\<in>set rs. l \<noteq> h \<and> l \<noteq> []" and "h \<noteq> []"
  shows "filter (\<lambda>l. l \<noteq> []) (takeWhile (\<lambda>l. l \<noteq> h) (rs @ [] # h # rest)) = rs"
proof -
  have "takeWhile (\<lambda>l. l \<noteq> h) (rs @ [] # h # rest) = rs @ [[]]"
    using assms by (simp add: takeWhile_append2)
  moreover have "filter (\<lambda>l. l \<noteq> []) rs = rs"
    using assms(1) by (simp add: filter_id_conv)
  ultimately show ?thesis by simp
qed

lemma section1_page: "section1 (unlines (page (readlines t))) = reports cond1 (readlines t)"
proof -
  have "after_header header1 (page (readlines t)) =
      reports cond1 (readlines t) @ [] # header2 # reports cond2 (readlines t) @
        [] # header3 # reports cond3 (readlines t)"
    using after_header_skip [of "[]" header1] by (simp add: page_def)
  then show ?thesis
    by (simp add: section1_def out_lines_unlines page_no_newline section_until
        reports_shape headers_distinct)
qed

lemma section2_page: "section2 (unlines (page (readlines t))) = reports cond2 (readlines t)"
proof -
  have "\<forall>l\<in>set (header1 # reports cond1 (readlines t) @ [[]]). l \<noteq> header2"
    using headers_distinct by (auto dest: reports_shape(2))
  from after_header_skip [OF this]
  have "after_header header2 (page (readlines t)) =
      reports cond2 (readlines t) @ [] # header3 # reports cond3 (readlines t)"
    by (simp add: page_def)
  then show ?thesis
    by (simp add: section2_def out_lines_unlines page_no_newline section_until
        reports_shape headers_distinct)
qed

lemma section3_page: "section3 (unlines (page (readlines t))) = reports cond3 (readlines t)"
proof -
  have "\<forall>l\<in>set (header1 # reports cond1 (readlines t) @ [] # header2 #
      reports cond2 (readlines t) @ [[]]). l \<noteq> header3"
    using headers_distinct by (auto dest: reports_shape(3))
  from after_header_skip [OF this]
  have "after_header header3 (page (readlines t)) = reports cond3 (readlines t)"
    by (simp add: page_def)
  moreover have "filter (\<lambda>l. l \<noteq> []) (reports cond3 (readlines t)) = reports cond3 (readlines t)"
    by (simp add: filter_id_conv reports_shape)
  ultimately show ?thesis
    by (simp add: section3_def out_lines_unlines page_no_newline)
qed

lemma sections_main:
  assumes "files w ''server.js'' = Some (Text t)"
  shows "section1 (stdout (main w)) = reports cond1 (readlines t)"
    and "section2 (stdout (main w)) = reports cond2 (readlines t)"
    and "section3 (stdout (main w)) = reports cond3 (readlines t)"
  by (simp_all add: main_Text [OF assms] section1_page section2_page section3_page)


lemma line_no_reports:
  "map line_no (reports cond lines) =
     map fst (filter (\<lambda>(i, line). cond line) (List.enumerate 1 lines))"
  by (simp add: reports_def line_no_report split_def cong: map_cong)

lemma line_no_reports_increasing: "sorted_wrt (<) (map line_no (reports cond lines))"
proof -
  have "sorted_wrt (<) (map fst (List.enumerate 1 lines))"
    unfolding map_fst_enumerate by (rule sorted_wrt_upt)
  then have "sorted_wrt (\<lambda>p q. fst p < fst q) (List.enumerate 1 lines)"
    by (simp only: sorted_wrt_map)
  then have "sorted_wrt (\<lambda>p q. fst p < fst q)
      (filter (\<lambda>(i, line). cond line) (List.enumerate 1 lines))"
    by (rule sorted_wrt_filter)
  then show ?thesis
    by (simp add: line_no_reports sorted_wrt_map)
qed

subsection \<open>Runs that cannot read the file\<close>

lemma main_not_Text:
  assumes "\<forall>t. files w ''server.js'' \<noteq> Some (Text t)"
  shows "\<exists>e. open_readlines w ''server.js'' = Inl e \<and> main w = \<lparr>stdout = [], raised = Some e\<rparr>"
  using assms
  by (auto simp: main_def open_readlines_def split: option.splits file_entry.splits)

lemma sections_empty: "section1 [] = []" "section2 [] = []" "section3 [] = []"
  by (simp_all add: section1_def section2_def section3_def after_header_def)

subsection \<open>The example inputs, read\<close>



subsection \<open>What each section holds\<close>







subsection \<open>Headers\<close>







subsection \<open>Order within a section\<close>

text \<open>
  Claim C5: in every run, the line numbers printed in each of the three sections are
  strictly increasing.
\<close>

theorem section_line_numbers_increase:
  "sorted_wrt (<) (map line_no (section1 (stdout (main w)))) \<and>
   sorted_wrt (<) (map line_no (section2 (stdout (main w)))) \<and>
   sorted_wrt (<) (map line_no (section3 (stdout (main w))))"
proof (cases "\<exists>t. files w ''server.js'' = Some (Text t)")
  case True
  then obtain t where "files w ''server.js'' = Some (Text t)" ..
  then show ?thesis
    by (simp add: sections_main line_no_reports_increasing)
next
  case False
  then have "stdout (main w) = []"
    using main_not_Text [of w] by auto
  then show ?thesis
    by (simp add: sections_empty)
qed

subsection \<open>The line-5 scenario\<close>








section \<open>The script in its process\<close>

text \<open>
  The theorems above are about the text the script prints. The ones below are about
  the bytes a process writes: there a \<^verbatim>\<open>print\<close> can raise, and the environment decides
  the encodings.
\<close>

subsection \<open>Encoding\<close>

lemma encode_append:
  "encode enc (a @ b) =
     (case encode enc a of
        None \<Rightarrow> None
      | Some x \<Rightarrow> (case encode enc b of None \<Rightarrow> None | Some y \<Rightarrow> Some (x @ y)))"
  by (induction a) (auto split: option.splits)

lemma encode_None_iff: "encode enc s = None \<longleftrightarrow> (\<exists>c\<in>set s. encode_char enc c = None)"
  by (induction s) (auto split: option.splits)


lemma encode_char_ascii: "c < 0x80 \<Longrightarrow> encode_char enc c \<noteq> None"
  by (cases enc) simp_all

lemma encode_char_utf8_byte: "c < 0x100 \<Longrightarrow> encode_char UTF8 c \<noteq> None"
  by simp

lemma utf8_first_scalar:
  assumes "utf8_first bs = Some (c, rest)"
  shows "encode_char UTF8 c \<noteq> None"
  using assms
  by (auto simp: utf8_first_def Let_def continuation_def split: list.splits if_splits)

lemma utf8_decode_scalars:
  "utf8_decode bs = Some t \<Longrightarrow> \<forall>c\<in>set t. encode_char UTF8 c \<noteq> None"
proof (induction bs arbitrary: t rule: utf8_decode.induct)
  case (1 bs)
  show ?case
  proof (cases "bs = []")
    case True
    with "1.prems" show ?thesis by (simp add: utf8_decode.simps)
  next
    case False
    with "1.prems" obtain c rest t' where f: "utf8_first bs = Some (c, rest)"
      and d: "utf8_decode rest = Some t'" and t: "t = c # t'"
      by (subst (asm) utf8_decode.simps) (auto split: option.splits)
    from "1.IH" [OF False f refl d] utf8_first_scalar [OF f] t show ?thesis
      by simp
  qed
qed

lemma unat_byte_less: "unat (b :: byte) < 0x100"
  using unsigned_less [of b, where ?'a = nat] by simp

lemma decode_encodable:
  assumes "decode enc bs = Some t"
  shows "\<forall>c\<in>set t. encode_char enc c \<noteq> None" and "\<forall>c\<in>set t. encode_char UTF8 c \<noteq> None"
proof -
  show "\<forall>c\<in>set t. encode_char enc c \<noteq> None"
  proof (cases enc)
    case ASCII
    with assms show ?thesis by (auto simp: list_all_iff split: if_splits)
  next
    case Latin1
    with assms show ?thesis using unat_byte_less by auto
  next
    case UTF8
    with assms show ?thesis using utf8_decode_scalars by simp
  qed
  show "\<forall>c\<in>set t. encode_char UTF8 c \<noteq> None"
  proof (cases enc)
    case ASCII
    with assms have "\<forall>c\<in>set t. c < 0x80"
      by (auto simp: list_all_iff split: if_splits)
    then show ?thesis using encode_char_ascii by blast
  next
    case Latin1
    have "encode_char UTF8 (unat b) \<noteq> None" for b :: byte
      using unat_byte_less [of b] by (intro encode_char_utf8_byte)
    with Latin1 assms show ?thesis by (auto simp del: encode_char.simps)
  next
    case UTF8
    with assms show ?thesis using utf8_decode_scalars by simp
  qed
qed

subsection \<open>Characters of the output\<close>

lemma set_strip: "set (strip s) \<subseteq> set s"
proof -
  have "set (strip s) \<subseteq> set (lstrip s)"
    unfolding strip_def by (rule set_rstrip)
  also have "\<dots> \<subseteq> set s"
    unfolding lstrip_def using set_dropWhileD by fastforce
  finally show ?thesis .
qed

lemma set_universal_newlines: "set (universal_newlines after_cr t) \<subseteq> insert 10 (set t)"
  by (induction after_cr t rule: universal_newlines.induct) auto

lemma concat_split_keepends: "concat (split_keepends t) = t"
  by (induction t) (auto split: list.splits)

lemma set_readlines:
  assumes "l \<in> set (readlines t)"
  shows "set l \<subseteq> insert 10 (set t)"
proof -
  from assms have "set l \<subseteq> set (concat (readlines t))" by auto
  also have "\<dots> = set (universal_newlines False t)"
    by (simp add: readlines_def concat_split_keepends)
  also have "\<dots> \<subseteq> insert 10 (set t)"
    by (rule set_universal_newlines)
  finally show ?thesis .
qed

lemma str_nat_ascii: "c \<in> set (str_nat n) \<Longrightarrow> c < 0x80"
  using str_nat_digits [of n] by (auto simp: is_digit_def)

lemma line_report_chars:
  assumes "c \<in> set (line_report i line)"
  shows "c < 0x80 \<or> c \<in> set line"
proof -
  from assms have "c \<in> set (lit ''Line '') \<or> c \<in> set (str_nat i) \<or> c \<in> set (lit '': '') \<or>
      c \<in> set (strip line)"
    by (auto simp: line_report_def)
  moreover have "c \<in> set (lit ''Line '') \<Longrightarrow> c < 0x80" by (auto simp: lit_def)
  moreover have "c \<in> set (lit '': '') \<Longrightarrow> c < 0x80" by (auto simp: lit_def)
  ultimately show ?thesis using str_nat_ascii set_strip by blast
qed

lemma header_ascii:
  "\<forall>c\<in>set header1. c < 0x80" "\<forall>c\<in>set header2. c < 0x80" "\<forall>c\<in>set header3. c < 0x80"
  by (simp_all add: header1_def header2_def header3_def lit_def)

lemma reports_chars:
  assumes "r \<in> set (reports cond (readlines t))" and "c \<in> set r"
  shows "c < 0x80 \<or> c \<in> set t"
proof -
  from assms(1) obtain i l where "(i, l) \<in> set (List.enumerate 1 (readlines t))"
    and r: "r = line_report i l"
    by (auto simp: reports_def)
  then have "l \<in> set (readlines t)" by (auto simp: in_set_enumerate_eq)
  from set_readlines [OF this] line_report_chars [of c i l] assms(2) r show ?thesis
    by auto
qed

lemma set_unlines: "c \<in> set (unlines ls) \<Longrightarrow> c = 10 \<or> (\<exists>l\<in>set ls. c \<in> set l)"
  by (induction ls) (auto simp: unlines_simps)

lemma page_chars:
  assumes "c \<in> set (unlines (page (readlines t)))"
  shows "c < 0x80 \<or> c \<in> set t"
proof -
  from set_unlines [OF assms] consider "c = 10" | l where "l \<in> set (page (readlines t))" "c \<in> set l"
    by auto
  then show ?thesis
  proof cases
    case 1
    then show ?thesis by simp
  next
    case 2
    then consider "l = header1" | "l = header2" | "l = header3" | "l = []"
      | cond where "l \<in> set (reports cond (readlines t))"
      by (auto simp: page_def)
    then show ?thesis
      using 2(2) header_ascii reports_chars by cases auto
  qed
qed

lemma page_encodable:
  assumes "decode enc bs = Some t" and "enc' = enc \<or> enc' = UTF8"
  shows "encode enc' (unlines (page (readlines t))) \<noteq> None"
proof -
  have "encode_char enc' c \<noteq> None" if "c \<in> set (unlines (page (readlines t)))" for c
  proof -
    from page_chars [OF that] show ?thesis
    proof
      assume "c < 0x80"
      then show ?thesis by (rule encode_char_ascii)
    next
      assume "c \<in> set t"
      with decode_encodable [OF assms(1)] assms(2) show ?thesis by blast
    qed
  qed
  then show ?thesis
    unfolding encode_None_iff by blast
qed

subsection \<open>Statements that go through\<close>

lemma encode_append_Some:
  assumes "encode enc (a @ b) = Some bs"
  obtains x y where "encode enc a = Some x" and "encode enc b = Some y" and "bs = x @ y"
  using assms by (auto simp: encode_append split: option.splits)

lemma encode_char_newline: "encode_char enc 10 = Some [10]"
  by (cases enc) simp_all

lemma write_stdout_Inr:
  "write_stdout p s out = Inr out' \<longleftrightarrow>
     (\<exists>bs. encode (stdout_encoding p) s = Some bs \<and> io_write p out bs \<and> out' = out @ bs)"
  by (auto simp: write_stdout_def split: option.splits)

lemma print_stdout_Inr:
  "print_stdout p s out = Inr out' \<longleftrightarrow>
     (\<exists>bs. encode (stdout_encoding p) s = Some bs \<and> io_write p out bs \<and>
        io_write p (out @ bs) [10] \<and> out' = out @ bs @ [10])"
  by (auto simp: print_stdout_def write_stdout_def encode_char_newline
      split: sum.splits option.splits if_splits)

lemma print_stdout_ok:
  assumes "\<forall>out bs. io_write p out bs"
    and "encode (stdout_encoding p) (s @ [10]) = Some bs"
  shows "print_stdout p s out = Inr (out @ bs)"
proof -
  from assms(2) obtain x where "encode (stdout_encoding p) s = Some x" and "bs = x @ [10]"
    by (auto elim!: encode_append_Some simp: encode_char_newline)
  with assms(1) show ?thesis
    by (simp add: print_stdout_Inr)
qed

lemma report_loop_stdout_ok:
  assumes "\<forall>out bs. io_write p out bs"
    and "encode (stdout_encoding p)
           (unlines (map (\<lambda>(i, line). line_report i line) (filter (\<lambda>(i, line). cond line) es))) =
         Some bs"
  shows "report_loop_stdout p cond es out = Inr (out @ bs)"
  using assms(2)
proof (induction es arbitrary: out bs)
  case Nil
  then show ?case by (simp add: unlines_simps)
next
  case (Cons e es)
  obtain i line where e: "e = (i, line)" by (cases e)
  show ?case
  proof (cases "cond line")
    case False
    with Cons e show ?thesis by simp
  next
    case True
    with Cons.prems e have "encode (stdout_encoding p)
        ((line_report i line @ [10]) @
         unlines (map (\<lambda>(i, line). line_report i line) (filter (\<lambda>(i, line). cond line) es))) =
        Some bs"
      by (simp add: unlines_simps)
    then obtain x y where x: "encode (stdout_encoding p) (line_report i line @ [10]) = Some x"
      and y: "encode (stdout_encoding p)
          (unlines (map (\<lambda>(i, line). line_report i line) (filter (\<lambda>(i, line). cond line) es))) =
          Some y"
      and bs: "bs = x @ y"
      by (rule encode_append_Some)
    from print_stdout_ok [OF assms(1) x] Cons.IH [OF y] True e bs show ?thesis
      by simp
  qed
qed

lemma report_loop_stdout_reports_ok:
  assumes "\<forall>out bs. io_write p out bs"
    and "encode (stdout_encoding p) (unlines (reports cond lines)) = Some bs"
  shows "report_loop_stdout p cond (List.enumerate 1 lines) out = Inr (out @ bs)"
  using report_loop_stdout_ok [OF assms(1)] assms(2) unfolding reports_def by blast

lemma unlines_page:
  "unlines (page lines) =
     (header1 @ [10]) @ unlines (reports cond1 lines) @
     ((10 # header2) @ [10]) @ unlines (reports cond2 lines) @
     ((10 # header3) @ [10]) @ unlines (reports cond3 lines)"
  by (simp add: page_def unlines_simps)

lemma body_ok:
  assumes acc: "\<forall>out bs. io_write p out bs"
    and enc: "encode (stdout_encoding p) (unlines (page lines)) = Some bs"
  shows "body p lines = Inr bs"
proof -
  let ?e = "encode (stdout_encoding p)"
  from enc obtain b1 r1 where b1: "?e (header1 @ [10]) = Some b1"
    and r1: "?e (unlines (reports cond1 lines) @ ((10 # header2) @ [10]) @
        unlines (reports cond2 lines) @ ((10 # header3) @ [10]) @
        unlines (reports cond3 lines)) = Some r1" and bs1: "bs = b1 @ r1"
    unfolding unlines_page by (rule encode_append_Some)
  from r1 obtain b2 r2 where b2: "?e (unlines (reports cond1 lines)) = Some b2"
    and r2: "?e (((10 # header2) @ [10]) @ unlines (reports cond2 lines) @
        ((10 # header3) @ [10]) @ unlines (reports cond3 lines)) = Some r2"
    and bs2: "r1 = b2 @ r2"
    by (rule encode_append_Some)
  from r2 obtain b3 r3 where b3: "?e ((10 # header2) @ [10]) = Some b3"
    and r3: "?e (unlines (reports cond2 lines) @ ((10 # header3) @ [10]) @
        unlines (reports cond3 lines)) = Some r3" and bs3: "r2 = b3 @ r3"
    by (rule encode_append_Some)
  from r3 obtain b4 r4 where b4: "?e (unlines (reports cond2 lines)) = Some b4"
    and r4: "?e (((10 # header3) @ [10]) @ unlines (reports cond3 lines)) = Some r4"
    and bs4: "r3 = b4 @ r4"
    by (rule encode_append_Some)
  from r4 obtain b5 b6 where b5: "?e ((10 # header3) @ [10]) = Some b5"
    and b6: "?e (unlines (reports cond3 lines)) = Some b6" and bs5: "r4 = b5 @ b6"
    by (rule encode_append_Some)
  note p1 = print_stdout_ok [OF acc b1] and p3 = print_stdout_ok [OF acc b3]
    and p5 = print_stdout_ok [OF acc b5]
    and l2 = report_loop_stdout_reports_ok [OF acc b2]
    and l4 = report_loop_stdout_reports_ok [OF acc b4]
    and l6 = report_loop_stdout_reports_ok [OF acc b6]
  show ?thesis
    unfolding body_def
    by (simp add: p1 l2 p3 l4 p5 l6 bs1 bs2 bs3 bs4 bs5 del: One_nat_def)
qed

subsection \<open>What a failing statement raises\<close>

lemma write_stdout_raises:
  "write_stdout p s out = Inl (e, out') \<Longrightarrow> e = UnicodeEncodeError \<or> e = OSError"
  by (auto simp: write_stdout_def split: option.splits if_splits)

lemma print_stdout_raises:
  "print_stdout p s out = Inl (e, out') \<Longrightarrow> e = UnicodeEncodeError \<or> e = OSError"
  by (auto simp: print_stdout_def split: sum.splits dest: write_stdout_raises)

lemma report_loop_stdout_raises:
  "report_loop_stdout p cond es out = Inl (e, out') \<Longrightarrow> e = UnicodeEncodeError \<or> e = OSError"
  by (induction p cond es out rule: report_loop_stdout.induct)
    (auto split: if_splits sum.splits dest: print_stdout_raises)

lemma run_statements_raises:
  assumes "\<forall>s\<in>set ss. \<forall>out e out'. s out = Inl (e, out') \<longrightarrow> P e"
    and "run_statements ss out = Inl (e, out')"
  shows "P e"
  using assms
  by (induction ss arbitrary: out) (auto split: sum.splits)

lemma body_raises:
  assumes "body p lines = Inl (e, out')"
  shows "e = UnicodeEncodeError \<or> e = OSError"
proof (rule run_statements_raises [OF _ assms [unfolded body_def]])
  show "\<forall>s\<in>set [print_stdout p header1,
        report_loop_stdout p cond1 (List.enumerate 1 lines),
        print_stdout p (10 # header2),
        report_loop_stdout p cond2 (List.enumerate 1 lines),
        print_stdout p (10 # header3),
        report_loop_stdout p cond3 (List.enumerate 1 lines)].
      \<forall>out e out'. s out = Inl (e, out') \<longrightarrow> e = UnicodeEncodeError \<or> e = OSError"
    by (auto dest: print_stdout_raises report_loop_stdout_raises)
qed

lemma run_body:
  "open_readlines (text_world p) ''server.js'' = Inr lines \<Longrightarrow> run p = finish p (body p lines)"
  by (simp add: run_def)

lemma run_read_failed:
  "open_readlines (text_world p) ''server.js'' = Inl e \<Longrightarrow>
     run p = \<lparr>written = [], uncaught = Some e, flush_failed = False\<rparr>"
  by (simp add: run_def finish_def)

subsection \<open>The bytes of a run that goes through\<close>






subsection \<open>What the statements depend on\<close>







subsection \<open>The example processes\<close>

lemma decode_cafe: "decode UTF8 cafe_bytes = Some cafe_line"
  by (simp add: cafe_bytes_def cafe_line_def lit_def utf8_decode.simps utf8_first_def
      continuation_def)

lemma readlines_cafe: "readlines cafe_line = [cafe_line]"
  by (simp add: cafe_line_def readlines_def lit_def)



lemma stdout_encoding_examples:
  "stdout_encoding utf8_process = UTF8" "stdout_encoding latin1_stdout_process = Latin1"
  "stdout_encoding ascii_stdout_process = ASCII" "stdout_encoding full_device_process = UTF8"
  by (simp_all add: stdout_encoding_def utf8_process_def latin1_stdout_process_def
      ascii_stdout_process_def full_device_process_def)

lemma read_cafe:
  "open_readlines (text_world utf8_process) ''server.js'' = Inr [cafe_line]"
  "open_readlines (text_world latin1_stdout_process) ''server.js'' = Inr [cafe_line]"
  "open_readlines (text_world ascii_stdout_process) ''server.js'' = Inr [cafe_line]"
  "open_readlines (text_world full_device_process) ''server.js'' = Inr [cafe_line]"
  by (simp_all add: open_readlines_def text_world_def utf8_process_def latin1_stdout_process_def
      ascii_stdout_process_def full_device_process_def decode_cafe readlines_cafe
      del: decode.simps)




subsection \<open>Runs\<close>


lemma read_missing:
  "disk p path = None \<Longrightarrow> open_readlines (text_world p) path = Inl FileNotFoundError"
  "disk p path = Some Denied \<Longrightarrow> open_readlines (text_world p) path = Inl PermissionError"
  by (simp_all add: open_readlines_def text_world_def)


lemma run_uncaught:
  assumes "open_readlines (text_world p) ''server.js'' = Inr lines"
  shows "uncaught (run p) = None \<or> uncaught (run p) = Some UnicodeEncodeError \<or>
         uncaught (run p) = Some OSError"
proof (cases "body p lines")
  case (Inl failure)
  obtain e out where "failure = (e, out)" by (cases failure)
  with Inl body_raises [of p lines e out] show ?thesis
    by (auto simp: run_body [OF assms] finish_def)
next
  case (Inr out)
  then show ?thesis
    by (simp add: run_body [OF assms] finish_def)
qed

lemma encode_char_nonempty: "encode_char enc c = Some bs \<Longrightarrow> bs \<noteq> []"
  by (cases enc) (auto split: if_splits)

lemma encode_length: "encode enc s = Some bs \<Longrightarrow> length s \<le> length bs"
proof (induction s arbitrary: bs)
  case Nil
  then show ?case by simp
next
  case (Cons c s)
  then obtain x y where x: "encode_char enc c = Some x" and y: "encode enc s = Some y"
    and bs: "bs = map of_nat x @ y"
    by (auto split: option.splits)
  from encode_char_nonempty [OF x] have "1 \<le> length x" by (cases x) auto
  with Cons.IH [OF y] bs show ?case by simp
qed



lemma page_nonempty: "unlines (page lines) \<noteq> []"
  by (simp add: page_def unlines_simps)




subsection \<open>Failure of the read, and other failures\<close>

text \<open>
  Claim C6, as amended: when \<^verbatim>\<open>server.js\<close> does not exist or may not be opened, the
  process writes nothing to its standard output and ends with a non-zero status. The read
  is not the only operation that can fail: a non-zero status means that the read raised,
  or that a \<^verbatim>\<open>print\<close> raised \<^verbatim>\<open>UnicodeEncodeError\<close> or \<^verbatim>\<open>OSError\<close>, or that the flush
  of the standard output at exit failed.
\<close>

theorem failed_read_prints_nothing:
  "(disk p ''server.js'' = None \<or> disk p ''server.js'' = Some Denied \<longrightarrow>
      written (run p) = [] \<and> exit_code (run p) \<noteq> 0) \<and>
   (exit_code (run p) \<noteq> 0 \<longrightarrow>
      (\<exists>e. open_readlines (text_world p) ''server.js'' = Inl e) \<or>
      uncaught (run p) = Some UnicodeEncodeError \<or> uncaught (run p) = Some OSError \<or>
      flush_failed (run p))"
proof -
  have "written (run p) = [] \<and> exit_code (run p) \<noteq> 0"
    if "disk p ''server.js'' = None \<or> disk p ''server.js'' = Some Denied"
  proof -
    from that obtain e where "open_readlines (text_world p) ''server.js'' = Inl e"
      using read_missing by blast
    from run_read_failed [OF this] show ?thesis
      by (simp add: exit_code_def)
  qed
  moreover have "(\<exists>e. open_readlines (text_world p) ''server.js'' = Inl e) \<or>
      uncaught (run p) = Some UnicodeEncodeError \<or> uncaught (run p) = Some OSError \<or>
      flush_failed (run p)"
    if x: "exit_code (run p) \<noteq> 0"
  proof (cases "open_readlines (text_world p) ''server.js''")
    case (Inl e)
    then show ?thesis by blast
  next
    case (Inr lines)
    from run_uncaught [OF this] x show ?thesis
      by (auto simp: exit_code_def split: if_splits)
  qed
  ultimately show ?thesis by blast
qed

text \<open>
  A process without the file: nothing written, status 1.
\<close>

theorem failed_read_witness:
  "disk missing_process ''server.js'' = None \<and>
   written (run missing_process) = [] \<and> exit_code (run missing_process) = 1 \<and>
   open_readlines (text_world missing_process) ''server.js'' = Inl FileNotFoundError"
proof -
  have d: "disk missing_process ''server.js'' = None"
    by (simp add: missing_process_def)
  from read_missing(1) [OF d] have r: "open_readlines (text_world missing_process) ''server.js'' =
      Inl FileNotFoundError" .
  from failed_read_prints_nothing [of missing_process] d r run_read_failed [OF r]
  show ?thesis
    by (simp add: exit_code_def)
qed

text \<open>
  The claim as stated, with the read as the only operation that can fail, does not
  hold: on a device that refuses the final flush the read succeeds, nothing is raised, and
  the status is 120.
\<close>

theorem flush_can_fail_after_read:
  "open_readlines (text_world full_device_process) ''server.js'' = Inr [cafe_line] \<and>
   uncaught (run full_device_process) = None \<and>
   flush_failed (run full_device_process) \<and>
   exit_code (run full_device_process) = 120"
proof -
  let ?p = full_device_process
  have w: "\<forall>out bs. io_write ?p out bs" and f: "\<not> io_flush ?p out" for out
    by (simp_all add: full_device_process_def utf8_process_def)
  have "preferred_encoding ?p = UTF8"
    by (simp add: full_device_process_def utf8_process_def)
  with page_encodable [OF decode_cafe, of UTF8] obtain out
    where enc: "encode (stdout_encoding ?p) (unlines (page [cafe_line])) = Some out"
    by (auto simp: readlines_cafe stdout_encoding_examples)
  from encode_length [OF enc] page_nonempty [of "[cafe_line]"] have "out \<noteq> []"
    by auto
  with body_ok [OF w enc] f
  have "run ?p = \<lparr>written = out, uncaught = None, flush_failed = True\<rparr>"
    by (simp add: run_body [OF read_cafe(4)] finish_def)
  then show ?thesis
    by (simp add: read_cafe exit_code_def)
qed

subsection \<open>What the output depends on\<close>




subsection \<open>After a successful read\<close>




end
